theory Spec2Isabelle
  imports Main "HOL-Library.Word" "HOL-Library.Sublist"
begin

unbundle bit_operations_syntax

section \<open>Strings of the Python runtime\<close>

text \<open>
  A Python \<open>str\<close> is a sequence of Unicode code points, so a string is a list of
  code points and its length counts code points. ASCII literals of the source are written
  through \<open>ascii\<close>.
\<close>

type_synonym codepoint = nat
type_synonym str = "codepoint list"

definition ascii :: "string \<Rightarrow> str" where
  "ascii s = map of_char s"

abbreviation underscore :: codepoint where "underscore \<equiv> 95"
abbreviation dot :: codepoint where "dot \<equiv> 46"
abbreviation dash :: codepoint where "dash \<equiv> 45"
abbreviation slash :: codepoint where "slash \<equiv> 47"

text \<open>
  The parts of the runtime that the source reads but that are tables of the Unicode
  database or values of the process environment: the alphanumeric property of the code
  points beyond ASCII (\<open>str.isalnum\<close>, which decides \<open>\w\<close>), \<open>str.lower\<close> on strings
  that are not pure ASCII, the expansion of \<open>~\<close> and the current directory.
\<close>

record runtime =
  unicode_isalnum :: "codepoint \<Rightarrow> bool"
  unicode_lower :: "str \<Rightarrow> str"
  home :: str
  cwd :: str

definition ascii_alnum :: "codepoint \<Rightarrow> bool" where
  "ascii_alnum c = ((48 \<le> c \<and> c \<le> 57) \<or> (65 \<le> c \<and> c \<le> 90) \<or> (97 \<le> c \<and> c \<le> 122))"

text \<open>\<open>\w\<close> of a \<open>str\<close> pattern: an alphanumeric code point or the underscore.\<close>

definition is_word :: "runtime \<Rightarrow> codepoint \<Rightarrow> bool" where
  "is_word rt c = (c = underscore \<or> (if c < 128 then ascii_alnum c else unicode_isalnum rt c))"

section \<open>sanitize_filename\<close>

text \<open>\<open>re.sub(r'[^\w.-]', '_', filename)\<close>: every code point outside the class becomes
  an underscore.\<close>

definition replace_unsafe :: "runtime \<Rightarrow> str \<Rightarrow> str" where
  "replace_unsafe rt s = map (\<lambda>c. if is_word rt c \<or> c = dot \<or> c = dash then c else underscore) s"

text \<open>\<open>re.sub(r'_{2,}', '_', filename)\<close>: scanning from the left, a match starts where two
  underscores follow each other, it is greedy, and the scan goes on behind it.\<close>

function collapse_underscores :: "str \<Rightarrow> str" where
  "collapse_underscores [] = []"
| "collapse_underscores (c # cs) =
     (if c = underscore \<and> cs \<noteq> [] \<and> hd cs = underscore
      then underscore # collapse_underscores (dropWhile (\<lambda>x. x = underscore) cs)
      else c # collapse_underscores cs)"
  by pat_completeness auto
termination
  by (relation "measure length") (auto simp: less_Suc_eq_le length_dropWhile_le)

text \<open>\<open>filename.strip('_')\<close>\<close>

definition strip_underscores :: "str \<Rightarrow> str" where
  "strip_underscores s =
     rev (dropWhile (\<lambda>x. x = underscore) (rev (dropWhile (\<lambda>x. x = underscore) s)))"

definition sanitize_filename :: "runtime \<Rightarrow> str \<Rightarrow> str" where
  "sanitize_filename rt filename =
     strip_underscores (collapse_underscores (replace_unsafe rt filename))"

text \<open>The character class \<open>[A-Za-z0-9_.-]\<close> of the specification.\<close>

definition ascii_safe :: "codepoint \<Rightarrow> bool" where
  "ascii_safe c = (ascii_alnum c \<or> c = underscore \<or> c = dot \<or> c = dash)"

text \<open>What is left of it on the code: the class \<open>[\w.-]\<close>.\<close>

definition safe_char :: "runtime \<Rightarrow> codepoint \<Rightarrow> bool" where
  "safe_char rt c = (is_word rt c \<or> c = dot \<or> c = dash)"

text \<open>Two underscores next to each other somewhere in the string.\<close>

fun adjacent_underscores :: "str \<Rightarrow> bool" where
  "adjacent_underscores (a # b # r) = ((a = underscore \<and> b = underscore) \<or> adjacent_underscores (b # r))"
| "adjacent_underscores _ = False"

definition edge_underscore :: "str \<Rightarrow> bool" where
  "edge_underscore s = (s \<noteq> [] \<and> (hd s = underscore \<or> last s = underscore))"

text \<open>The alphanumeric code points of the Latin-1 block U+0080..U+00FF in the Unicode
  database: the letters, the superscript digits and the vulgar fractions.\<close>

definition latin1_isalnum :: "codepoint \<Rightarrow> bool" where
  "latin1_isalnum c = (c \<in> {170, 178, 179, 181, 185, 186, 188, 189, 190}
     \<or> (192 \<le> c \<and> c \<le> 214) \<or> (216 \<le> c \<and> c \<le> 246) \<or> (248 \<le> c \<and> c \<le> 255))"

section \<open>Path functions of \<open>posixpath\<close>\<close>

text \<open>\<open>s.rfind(c)\<close>: the index of the last occurrence, or \<open>-1\<close>.\<close>

definition rfind :: "str \<Rightarrow> codepoint \<Rightarrow> int" where
  "rfind s c =
     (if c \<in> set s then int (length s) - 1 - int (length (takeWhile (\<lambda>x. x \<noteq> c) (rev s)))
      else - 1)"

text \<open>\<open>s[i:j]\<close> for indices that are not negative.\<close>

definition slice :: "str \<Rightarrow> int \<Rightarrow> int \<Rightarrow> str" where
  "slice s i j = take (nat j - nat i) (drop (nat i) s)"

definition startswith :: "str \<Rightarrow> str \<Rightarrow> bool" where
  "startswith s pre = (take (length pre) s = pre)"

definition endswith :: "str \<Rightarrow> str \<Rightarrow> bool" where
  "endswith s suf = (length suf \<le> length s \<and> drop (length s - length suf) s = suf)"

text \<open>\<open>posixpath.basename\<close>: \<open>i = p.rfind('/') + 1; return p[i:]\<close>\<close>

definition basename :: "str \<Rightarrow> str" where
  "basename p = (let i = rfind p slash + 1 in drop (nat i) p)"

text \<open>The loop of \<open>genericpath._splitext\<close> that skips the leading dots of the file name.\<close>

function skip_leading_dots :: "str \<Rightarrow> int \<Rightarrow> int \<Rightarrow> str \<times> str" where
  "skip_leading_dots p filenameIndex dotIndex =
     (if filenameIndex < dotIndex then
        (if slice p filenameIndex (filenameIndex + 1) \<noteq> [dot]
         then (take (nat dotIndex) p, drop (nat dotIndex) p)
         else skip_leading_dots p (filenameIndex + 1) dotIndex)
      else (p, []))"
  by pat_completeness auto
termination
  by (relation "measure (\<lambda>(p, i, d). nat (d - i))") auto

declare skip_leading_dots.simps [simp del]

definition splitext :: "str \<Rightarrow> str \<times> str" where
  "splitext p =
     (let sepIndex = rfind p slash; dotIndex = rfind p dot
      in if dotIndex > sepIndex then skip_leading_dots p (sepIndex + 1) dotIndex else (p, []))"

text \<open>\<open>posixpath.join(a, b)\<close>\<close>

definition path_join :: "str \<Rightarrow> str \<Rightarrow> str" where
  "path_join a b =
     (if startswith b [slash] then b
      else if a = [] \<or> endswith a [slash] then a @ b
      else a @ [slash] @ b)"

text \<open>\<open>s.split('/')\<close> and \<open>'/'.join(comps)\<close>\<close>

fun split_sep :: "str \<Rightarrow> str list" where
  "split_sep [] = [[]]"
| "split_sep (c # cs) =
     (if c = slash then [] # split_sep cs
      else (case split_sep cs of [] \<Rightarrow> [[c]] | x # xs \<Rightarrow> (c # x) # xs))"

fun join_sep :: "str list \<Rightarrow> str" where
  "join_sep [] = []"
| "join_sep [x] = x"
| "join_sep (x # y # r) = x @ [slash] @ join_sep (y # r)"

text \<open>One turn of the loop of \<open>posixpath.normpath\<close> over the components.\<close>

definition normpath_step :: "nat \<Rightarrow> str list \<Rightarrow> str \<Rightarrow> str list" where
  "normpath_step initial_slashes new_comps component =
     (if component = [] \<or> component = [dot] then new_comps
      else if component \<noteq> [dot, dot] \<or> (initial_slashes = 0 \<and> new_comps = [])
              \<or> (new_comps \<noteq> [] \<and> last new_comps = [dot, dot])
           then new_comps @ [component]
      else if new_comps \<noteq> [] then butlast new_comps
      else new_comps)"

definition normpath :: "str \<Rightarrow> str" where
  "normpath path =
     (if path = [] then [dot]
      else let initial_slashes =
                 (if startswith path [slash] then
                    (if startswith path [slash, slash] \<and> \<not> startswith path [slash, slash, slash]
                     then 2 else 1)
                  else 0);
               comps = foldl (normpath_step initial_slashes) [] (split_sep path);
               joined = replicate initial_slashes slash @ join_sep comps
           in if joined = [] then [dot] else joined)"

text \<open>\<open>posixpath.abspath\<close>, with the current directory of the process.\<close>

definition abspath :: "runtime \<Rightarrow> str \<Rightarrow> str" where
  "abspath rt path =
     normpath (if startswith path [slash] then path else path_join (cwd rt) path)"

text \<open>\<open>str.lower\<close>: on an ASCII string the letters A to Z move to a to z; any other string
  is lowered by the case mapping of the runtime.\<close>

definition ascii_lower :: "codepoint \<Rightarrow> codepoint" where
  "ascii_lower c = (if 65 \<le> c \<and> c \<le> 90 then c + 32 else c)"

definition lower :: "runtime \<Rightarrow> str \<Rightarrow> str" where
  "lower rt s = (if list_all (\<lambda>c. c < 128) s then map ascii_lower s else unicode_lower rt s)"

section \<open>Encoding and hashing\<close>

type_synonym byte = "8 word"
type_synonym u32 = "32 word"

datatype py_error = UnicodeEncodeError | OSError

text \<open>\<open>str.encode()\<close>: UTF-8, strict. A surrogate code point has no encoding and raises
  \<open>UnicodeEncodeError\<close>; a \<open>str\<close> holds no code point above U+10FFFF, so the last branch
  lies outside the type.\<close>

definition encode_codepoint :: "codepoint \<Rightarrow> py_error + byte list" where
  "encode_codepoint c =
     (if c < 0x80 then Inr [of_nat c]
      else if c < 0x800 then Inr [of_nat (0xC0 + c div 64), of_nat (0x80 + c mod 64)]
      else if c < 0x10000 then
        (if 0xD800 \<le> c \<and> c < 0xE000 then Inl UnicodeEncodeError
         else Inr [of_nat (0xE0 + c div 4096), of_nat (0x80 + c div 64 mod 64),
                   of_nat (0x80 + c mod 64)])
      else if c < 0x110000 then
        Inr [of_nat (0xF0 + c div 262144), of_nat (0x80 + c div 4096 mod 64),
             of_nat (0x80 + c div 64 mod 64), of_nat (0x80 + c mod 64)]
      else Inl UnicodeEncodeError)"

fun encode :: "str \<Rightarrow> py_error + byte list" where
  "encode [] = Inr []"
| "encode (c # cs) =
     (case encode_codepoint c of
        Inl e \<Rightarrow> Inl e
      | Inr bs \<Rightarrow> (case encode cs of Inl e \<Rightarrow> Inl e | Inr rest \<Rightarrow> Inr (bs @ rest)))"

text \<open>SHA-256 as \<open>hashlib.sha256\<close> computes it (FIPS 180-4).\<close>

definition sha256_k :: "u32 list" where
  "sha256_k =
    [0x428A2F98, 0x71374491, 0xB5C0FBCF, 0xE9B5DBA5, 0x3956C25B, 0x59F111F1,
     0x923F82A4, 0xAB1C5ED5, 0xD807AA98, 0x12835B01, 0x243185BE, 0x550C7DC3,
     0x72BE5D74, 0x80DEB1FE, 0x9BDC06A7, 0xC19BF174, 0xE49B69C1, 0xEFBE4786,
     0x0FC19DC6, 0x240CA1CC, 0x2DE92C6F, 0x4A7484AA, 0x5CB0A9DC, 0x76F988DA,
     0x983E5152, 0xA831C66D, 0xB00327C8, 0xBF597FC7, 0xC6E00BF3, 0xD5A79147,
     0x06CA6351, 0x14292967, 0x27B70A85, 0x2E1B2138, 0x4D2C6DFC, 0x53380D13,
     0x650A7354, 0x766A0ABB, 0x81C2C92E, 0x92722C85, 0xA2BFE8A1, 0xA81A664B,
     0xC24B8B70, 0xC76C51A3, 0xD192E819, 0xD6990624, 0xF40E3585, 0x106AA070,
     0x19A4C116, 0x1E376C08, 0x2748774C, 0x34B0BCB5, 0x391C0CB3, 0x4ED8AA4A,
     0x5B9CCA4F, 0x682E6FF3, 0x748F82EE, 0x78A5636F, 0x84C87814, 0x8CC70208,
     0x90BEFFFA, 0xA4506CEB, 0xBEF9A3F7, 0xC67178F2]"

type_synonym sha_state = "u32 \<times> u32 \<times> u32 \<times> u32 \<times> u32 \<times> u32 \<times> u32 \<times> u32"

definition sha256_init :: sha_state where
  "sha256_init =
    (0x6A09E667, 0xBB67AE85, 0x3C6EF372, 0xA54FF53A,
     0x510E527F, 0x9B05688C, 0x1F83D9AB, 0x5BE0CD19)"

definition rotr :: "nat \<Rightarrow> u32 \<Rightarrow> u32" where
  "rotr n x = drop_bit n x OR push_bit (32 - n) x"

definition small_sigma0 :: "u32 \<Rightarrow> u32" where
  "small_sigma0 x = rotr 7 x XOR rotr 18 x XOR drop_bit 3 x"

definition small_sigma1 :: "u32 \<Rightarrow> u32" where
  "small_sigma1 x = rotr 17 x XOR rotr 19 x XOR drop_bit 10 x"

definition big_sigma0 :: "u32 \<Rightarrow> u32" where
  "big_sigma0 x = rotr 2 x XOR rotr 13 x XOR rotr 22 x"

definition big_sigma1 :: "u32 \<Rightarrow> u32" where
  "big_sigma1 x = rotr 6 x XOR rotr 11 x XOR rotr 25 x"

text \<open>The message with its padding: the bit 1, zeros, and the bit length in 64 bits.\<close>

definition be_bytes :: "nat \<Rightarrow> nat \<Rightarrow> byte list" where
  "be_bytes n v = map (\<lambda>i. of_nat (v div 256 ^ (n - 1 - i))) [0..<n]"

definition sha256_pad :: "byte list \<Rightarrow> byte list" where
  "sha256_pad m =
     m @ [0x80] @ replicate ((119 - length m mod 64) mod 64) 0 @ be_bytes 8 (8 * length m)"

definition be_word :: "byte list \<Rightarrow> u32" where
  "be_word bs = foldl (\<lambda>acc b. push_bit 8 acc OR ucast b) 0 bs"

fun words_of :: "byte list \<Rightarrow> u32 list" where
  "words_of (a # b # c # d # r) = be_word [a, b, c, d] # words_of r"
| "words_of _ = []"

text \<open>The message schedule, kept newest word first.\<close>

fun schedule :: "nat \<Rightarrow> u32 list \<Rightarrow> u32 list" where
  "schedule 0 w = w"
| "schedule (Suc n) w =
     schedule n ((small_sigma1 (w ! 1) + w ! 6 + small_sigma0 (w ! 14) + w ! 15) # w)"

definition sha256_round :: "sha_state \<Rightarrow> u32 \<times> u32 \<Rightarrow> sha_state" where
  "sha256_round s kw =
     (case s of (a, b, c, d, e, f, g, h) \<Rightarrow>
        let t1 = h + big_sigma1 e + ((e AND f) XOR (NOT e AND g)) + fst kw + snd kw;
            t2 = big_sigma0 a + ((a AND b) XOR (a AND c) XOR (b AND c))
        in (t1 + t2, a, b, c, d + t1, e, f, g))"

definition sha256_block :: "sha_state \<Rightarrow> byte list \<Rightarrow> sha_state" where
  "sha256_block s block =
     (let w = rev (schedule 48 (rev (words_of block)))
      in case (s, foldl sha256_round s (zip sha256_k w)) of
           ((a, b, c, d, e, f, g, h), (a', b', c', d', e', f', g', h')) \<Rightarrow>
             (a + a', b + b', c + c', d + d', e + e', f + f', g + g', h + h'))"

function sha256_blocks :: "sha_state \<Rightarrow> byte list \<Rightarrow> sha_state" where
  "sha256_blocks s m =
     (if length m < 64 then s else sha256_blocks (sha256_block s (take 64 m)) (drop 64 m))"
  by pat_completeness auto
termination
  by (relation "measure (\<lambda>(s, m). length m)") auto

declare sha256_blocks.simps [simp del]

definition sha256 :: "byte list \<Rightarrow> byte list" where
  "sha256 m =
     (case sha256_blocks sha256_init (sha256_pad m) of
        (a, b, c, d, e, f, g, h) \<Rightarrow>
          concat (map (\<lambda>x. be_bytes 4 (unat x)) [a, b, c, d, e, f, g, h]))"

text \<open>\<open>hexdigest()\<close>: two lower-case hexadecimal digits for each byte.\<close>

definition hex_digit :: "nat \<Rightarrow> codepoint" where
  "hex_digit n = (if n < 10 then 48 + n else 87 + n)"

definition hexdigest :: "byte list \<Rightarrow> str" where
  "hexdigest bs = concat (map (\<lambda>b. [hex_digit (unat b div 16), hex_digit (unat b mod 16)]) bs)"

section \<open>get_mount_point\<close>

definition BASE_MOUNT_DIR :: "runtime \<Rightarrow> str" where
  "BASE_MOUNT_DIR rt = path_join (home rt) (ascii ''.iso_mounts'')"

definition get_mount_point :: "runtime \<Rightarrow> str \<Rightarrow> py_error + str" where
  "get_mount_point rt iso_path =
     (let iso_name = fst (splitext (basename iso_path))
      in case encode iso_path of
           Inl e \<Rightarrow> Inl e
         | Inr bytes \<Rightarrow>
             let path_hash = take 8 (hexdigest (sha256 bytes));
                 mount_dir_name = sanitize_filename rt (iso_name @ [underscore] @ path_hash)
             in Inr (path_join (BASE_MOUNT_DIR rt) mount_dir_name))"

section \<open>The operating system\<close>

text \<open>
  The tool reaches the operating system through \<open>os.path.exists\<close>, \<open>os.path.ismount\<close>,
  \<open>os.listdir\<close>, \<open>os.makedirs\<close>, \<open>os.rmdir\<close>, \<open>subprocess.run\<close> on \<open>mount\<close> and
  \<open>umount\<close>, and \<open>subprocess.Popen\<close> on \<open>xdg-open\<close>. Their answers belong to the
  machine, so the model takes them as operations on a state of the world \<open>'w\<close>, with the
  outcomes the source tells apart.
\<close>

datatype kind = Regular | Directory | Special

text \<open>\<open>subprocess.run(..., check=True)\<close>: it returns, or raises \<open>CalledProcessError\<close> with
  the captured stdout and stderr, or raises \<open>FileNotFoundError\<close> when there is no such
  executable, or raises another \<open>OSError\<close> (a \<open>PermissionError\<close> when the executable may
  not be run), which no handler of the tool catches.\<close>

datatype completed =
    Completed
  | CalledProcessError str str
  | FileNotFoundError
  | OtherOSError

text \<open>\<open>subprocess.Popen(['xdg-open', mount_point])\<close>: the child is started, or
  \<open>FileNotFoundError\<close> is raised, or another \<open>OSError\<close>, which the handler around the call
  does not catch.\<close>

datatype popen = Started | Popen_FileNotFoundError | Popen_OSError

record 'w os =
  os_stat :: "'w \<Rightarrow> str \<Rightarrow> kind option"
  os_ismount :: "'w \<Rightarrow> str \<Rightarrow> bool"
  os_listdir :: "'w \<Rightarrow> str \<Rightarrow> str list option"
  os_makedirs :: "'w \<Rightarrow> str \<Rightarrow> bool \<times> 'w"
  os_rmdir :: "'w \<Rightarrow> str \<Rightarrow> bool \<times> 'w"
  run_mount :: "'w \<Rightarrow> str \<Rightarrow> str \<Rightarrow> completed \<times> 'w"
  run_umount :: "'w \<Rightarrow> str \<Rightarrow> completed \<times> 'w"
  popen_xdg_open :: "'w \<Rightarrow> str \<Rightarrow> popen \<times> 'w"

text \<open>
  \<open>os_stat\<close> is \<open>None\<close> where \<open>os.stat\<close> fails; \<open>os_listdir\<close> is \<open>None\<close> where \<open>os.listdir\<close>
  raises an \<open>OSError\<close> (the path is no directory, or may not be read); \<open>os_makedirs\<close> is
  \<open>os.makedirs(path, exist_ok=True)\<close> and, like \<open>os_rmdir\<close>, answers \<open>False\<close> where the
  call raises \<open>OSError\<close>.
\<close>

datatype "call" =
    Makedirs str
  | Rmdir str
  | Run_mount str str
  | Run_umount str
  | Popen_xdg_open str

datatype stream = Stdout | Stderr

text \<open>One constructor for each \<open>print\<close> of the source, with the values it interpolates.\<close>

datatype message =
    Iso_not_found str
  | Not_an_iso str
  | Already_mounted str str
  | Xdg_open_missing str
  | Base_dir_failed str
  | Mount_dir_failed str
  | Attempting_mount str str
  | Mounted str str
  | Next_steps_header
  | Next_steps_access str
  | Next_steps_unmount
  | Mount_failed str str
  | Cleaned_after_failed_mount str
  | Remove_mount_dir_failed str
  | Mount_cmd_missing
  | No_mount_point str str
  | Not_mounted str str
  | Cleaned_empty_dir str
  | Remove_empty_dir_failed str
  | Attempting_unmount str
  | Unmounted str
  | Cleaned_mount_dir str
  | Left_nonempty str
  | Manual_cleanup_hint
  | Unmount_failed str str str
  | Open_files_hint
  | Umount_cmd_missing
  | Usage_line
  | Actions_line
  | Unknown_action str
  | Traceback py_error

text \<open>The running process: the world, what it has printed, and the calls it has made that
  act on the world, each with the world it was made in.\<close>

record 'w process =
  world :: 'w
  printed :: "(stream \<times> message) list"
  calls :: "('w \<times> call) list"

definition start :: "'w \<Rightarrow> 'w process" where
  "start w = \<lparr>world = w, printed = [], calls = []\<rparr>"

definition print :: "stream \<Rightarrow> message \<Rightarrow> 'w process \<Rightarrow> 'w process" where
  "print s m p = p\<lparr>printed := printed p @ [(s, m)]\<rparr>"

definition perform :: "call \<Rightarrow> 'w \<Rightarrow> 'w process \<Rightarrow> 'w process" where
  "perform c w' p = p\<lparr>world := w', calls := calls p @ [(world p, c)]\<rparr>"

text \<open>How a function of the tool ends: \<open>sys.exit(n)\<close>, a plain return, or an exception that
  nothing catches.\<close>

datatype outcome = Exit nat | Returned | Uncaught py_error

definition exit_code :: "outcome \<Rightarrow> nat" where
  "exit_code r = (case r of Exit n \<Rightarrow> n | Returned \<Rightarrow> 0 | Uncaught e \<Rightarrow> 1)"

definition uncaught :: "py_error \<Rightarrow> 'w process \<Rightarrow> outcome \<times> 'w process" where
  "uncaught e p = (Uncaught e, print Stderr (Traceback e) p)"

definition path_exists :: "'w os \<Rightarrow> 'w \<Rightarrow> str \<Rightarrow> bool" where
  "path_exists sys w path = (os_stat sys w path \<noteq> None)"

definition is_mounted :: "'w os \<Rightarrow> 'w \<Rightarrow> str \<Rightarrow> bool" where
  "is_mounted sys w mount_point = os_ismount sys w mount_point"

section \<open>mount_iso and unmount_iso\<close>

text \<open>\<open>try: subprocess.Popen(['xdg-open', mount_point])\<close> with its handler, which catches
  \<open>FileNotFoundError\<close> and prints the warning; any other exception of the call leaves the
  block, which the first component reports.\<close>

definition open_mount_point ::
  "'w os \<Rightarrow> str \<Rightarrow> 'w process \<Rightarrow> py_error option \<times> 'w process" where
  "open_mount_point sys mount_point p =
     (case popen_xdg_open sys (world p) mount_point of
        (result, w') \<Rightarrow>
          let p' = perform (Popen_xdg_open mount_point) w' p
          in case result of
               Started \<Rightarrow> (None, p')
             | Popen_FileNotFoundError \<Rightarrow>
                 (None, print Stdout (Xdg_open_missing mount_point) p')
             | Popen_OSError \<Rightarrow> (Some OSError, p'))"

text \<open>\<open>os.path.exists(mount_point) and not os.listdir(mount_point)\<close>\<close>

definition exists_and_empty :: "'w os \<Rightarrow> 'w \<Rightarrow> str \<Rightarrow> py_error + bool" where
  "exists_and_empty sys w mount_point =
     (if \<not> path_exists sys w mount_point then Inr False
      else case os_listdir sys w mount_point of
             None \<Rightarrow> Inl OSError
           | Some entries \<Rightarrow> Inr (entries = []))"

text \<open>\<open>try: os.rmdir(mount_point)\<close>, the message after it, and the warning of the handler.\<close>

definition try_rmdir ::
  "'w os \<Rightarrow> str \<Rightarrow> stream \<times> message \<Rightarrow> message \<Rightarrow> 'w process \<Rightarrow> 'w process" where
  "try_rmdir sys mount_point done warning p =
     (case os_rmdir sys (world p) mount_point of
        (removed, w') \<Rightarrow>
          let p' = perform (Rmdir mount_point) w' p
          in if removed then print (fst done) (snd done) p' else print Stderr warning p')"

definition mount_iso :: "'w os \<Rightarrow> runtime \<Rightarrow> str \<Rightarrow> 'w process \<Rightarrow> outcome \<times> 'w process" where
  "mount_iso sys rt path p =
     (let iso_path = abspath rt path in
      if \<not> path_exists sys (world p) iso_path then
        (Exit 1, print Stderr (Iso_not_found iso_path) p)
      else if \<not> endswith (lower rt iso_path) (ascii ''.iso'') then
        (Exit 1, print Stderr (Not_an_iso iso_path) p)
      else case get_mount_point rt iso_path of
        Inl e \<Rightarrow> uncaught e p
      | Inr mount_point \<Rightarrow>
        if is_mounted sys (world p) mount_point then
          (case open_mount_point sys mount_point
                  (print Stdout (Already_mounted iso_path mount_point) p) of
             (None, p') \<Rightarrow> (Exit 0, p')
           | (Some e, p') \<Rightarrow> uncaught e p')
        else case os_makedirs sys (world p) (BASE_MOUNT_DIR rt) of (made_base, w1) \<Rightarrow>
          let p1 = perform (Makedirs (BASE_MOUNT_DIR rt)) w1 p in
          if \<not> made_base then (Exit 1, print Stderr (Base_dir_failed (BASE_MOUNT_DIR rt)) p1)
          else case os_makedirs sys (world p1) mount_point of (made_dir, w2) \<Rightarrow>
            let p2 = perform (Makedirs mount_point) w2 p1 in
            if \<not> made_dir then (Exit 1, print Stderr (Mount_dir_failed mount_point) p2)
            else
              let p3 = print Stdout (Attempting_mount iso_path mount_point) p2 in
              case run_mount sys (world p3) iso_path mount_point of (result, w3) \<Rightarrow>
                let p4 = perform (Run_mount iso_path mount_point) w3 p3 in
                case result of
                  Completed \<Rightarrow>
                    (case open_mount_point sys mount_point
                            (print Stdout Next_steps_unmount
                              (print Stdout (Next_steps_access mount_point)
                                (print Stdout Next_steps_header
                                  (print Stdout (Mounted iso_path mount_point) p4)))) of
                       (None, p') \<Rightarrow> (Returned, p')
                     | (Some e, p') \<Rightarrow> uncaught e p')
                | CalledProcessError out err \<Rightarrow>
                    let p5 = print Stderr (Mount_failed out err) p4 in
                    (case exists_and_empty sys (world p5) mount_point of
                       Inl e \<Rightarrow> uncaught e p5
                     | Inr no_entries \<Rightarrow>
                         (Exit 1,
                          if no_entries
                          then try_rmdir sys mount_point
                                 (Stdout, Cleaned_after_failed_mount mount_point)
                                 (Remove_mount_dir_failed mount_point) p5
                          else p5))
                | FileNotFoundError \<Rightarrow> (Exit 1, print Stderr Mount_cmd_missing p4)
                | OtherOSError \<Rightarrow> uncaught OSError p4)"

definition unmount_iso :: "'w os \<Rightarrow> runtime \<Rightarrow> str \<Rightarrow> 'w process \<Rightarrow> outcome \<times> 'w process" where
  "unmount_iso sys rt path p =
     (let iso_path = abspath rt path in
      case get_mount_point rt iso_path of
        Inl e \<Rightarrow> uncaught e p
      | Inr mount_point \<Rightarrow>
        if \<not> path_exists sys (world p) mount_point then
          (Exit 0, print Stdout (No_mount_point mount_point iso_path) p)
        else if \<not> is_mounted sys (world p) mount_point then
          let p1 = print Stderr (Not_mounted iso_path mount_point) p in
          (case exists_and_empty sys (world p1) mount_point of
             Inl e \<Rightarrow> uncaught e p1
           | Inr no_entries \<Rightarrow>
               (Exit 0,
                if no_entries
                then try_rmdir sys mount_point (Stdout, Cleaned_empty_dir mount_point)
                       (Remove_empty_dir_failed mount_point) p1
                else p1))
        else
          let p1 = print Stdout (Attempting_unmount mount_point) p in
          case run_umount sys (world p1) mount_point of (result, w2) \<Rightarrow>
            let p2 = perform (Run_umount mount_point) w2 p1 in
            case result of
              Completed \<Rightarrow>
                let p3 = print Stdout (Unmounted mount_point) p2 in
                (case exists_and_empty sys (world p3) mount_point of
                   Inl e \<Rightarrow> uncaught e p3
                 | Inr no_entries \<Rightarrow>
                     (Returned,
                      if no_entries
                      then try_rmdir sys mount_point (Stdout, Cleaned_mount_dir mount_point)
                             (Remove_empty_dir_failed mount_point) p3
                      else if path_exists sys (world p3) mount_point
                      then print Stdout Manual_cleanup_hint
                             (print Stdout (Left_nonempty mount_point) p3)
                      else p3))
            | CalledProcessError out err \<Rightarrow>
                (Exit 1, print Stderr Open_files_hint
                           (print Stderr (Unmount_failed mount_point out err) p2))
            | FileNotFoundError \<Rightarrow> (Exit 1, print Stderr Umount_cmd_missing p2)
            | OtherOSError \<Rightarrow> uncaught OSError p2)"

text \<open>\<open>main\<close>, on the list \<open>sys.argv\<close>.\<close>

definition main :: "'w os \<Rightarrow> runtime \<Rightarrow> str list \<Rightarrow> 'w process \<Rightarrow> outcome \<times> 'w process" where
  "main sys rt argv p =
     (if length argv < 3 then
        (Exit 1, print Stderr Actions_line (print Stderr Usage_line p))
      else
        let action = argv ! 1; iso_path = argv ! 2 in
        if action = ascii ''mount'' then mount_iso sys rt iso_path p
        else if action = ascii ''unmount'' then unmount_iso sys rt iso_path p
        else (Exit 1, print Stderr (Unknown_action action) p))"

section \<open>Notions of the specification\<close>

text \<open>A string has UTF-8 bytes when none of its code points is a surrogate.\<close>

definition encodable :: "str \<Rightarrow> bool" where
  "encodable s = list_all (\<lambda>c. c < 0xD800 \<or> (0xE000 \<le> c \<and> c < 0x110000)) s"

definition utf8_bytes :: "str \<Rightarrow> byte list" where
  "utf8_bytes s = (case encode s of Inr bytes \<Rightarrow> bytes | Inl e \<Rightarrow> [])"

text \<open>\<open>hash8\<close>: the first 8 hexadecimal characters of the SHA-256 digest of the UTF-8 bytes
  of the path string.\<close>

definition hash8 :: "str \<Rightarrow> str" where
  "hash8 p = take 8 (hexdigest (sha256 (utf8_bytes p)))"

definition is_hex_digit :: "codepoint \<Rightarrow> bool" where
  "is_hex_digit c = ((48 \<le> c \<and> c \<le> 57) \<or> (97 \<le> c \<and> c \<le> 102))"

text \<open>The stem: the file name is what follows the last slash; its extension starts at its
  last dot, unless only dots come before that dot; the stem is the file name without the
  extension.\<close>

definition filename :: "str \<Rightarrow> str" where
  "filename p = rev (takeWhile (\<lambda>c. c \<noteq> slash) (rev p))"

definition stem :: "str \<Rightarrow> str" where
  "stem p =
     (let f = filename p;
          after_dot = rev (takeWhile (\<lambda>c. c \<noteq> dot) (rev f));
          before_dot = take (length f - length after_dot - 1) f
      in if dot \<in> set f \<and> list_ex (\<lambda>c. c \<noteq> dot) before_dot then before_dot else f)"


text \<open>A path directly below \<open>base\<close>: \<open>base\<close>, a slash, and one name that is not empty,
  holds no slash and is neither \<open>.\<close> nor \<open>..\<close>.\<close>

definition child_of :: "str \<Rightarrow> str \<Rightarrow> bool" where
  "child_of base path =
     (let name = drop (length base + 1) path
      in path = base @ [slash] @ name \<and> name \<noteq> [] \<and> slash \<notin> set name
         \<and> name \<noteq> [dot] \<and> name \<noteq> [dot, dot])"

text \<open>Every \<open>os.rmdir\<close> among the calls was made in a world where the directory existed and
  \<open>os.listdir\<close> found no entry in it.\<close>

definition removes_only_empty :: "'w os \<Rightarrow> ('w \<times> call) list \<Rightarrow> bool" where
  "removes_only_empty sys cs =
     list_all (\<lambda>(w, c). case c of
                  Rmdir d \<Rightarrow> path_exists sys w d \<and> os_listdir sys w d = Some []
                | _ \<Rightarrow> True) cs"

section \<open>A small machine to run the tool on\<close>

text \<open>
  A machine with a list of regular files, a list of directories with their entries, and a
  mount table. \<open>mount\<close> attaches a regular file to an existing directory and fails on
  anything else; \<open>umount\<close> detaches a mounted directory unless it is busy. A program that
  is installed without the permission to run it cannot be started.
\<close>

record machine =
  files :: "str list"
  dirs :: "(str \<times> str list) list"
  mounted :: "str list"
  read_only :: bool
  busy :: bool
  has_mount :: bool
  mount_executable :: bool
  has_xdg_open :: bool
  xdg_open_executable :: bool

definition machine_os :: "machine os" where
  "machine_os = \<lparr>
     os_stat = (\<lambda>w p. if p \<in> set (map fst (dirs w)) then Some Directory
                       else if p \<in> set (files w) then Some Regular else None),
     os_ismount = (\<lambda>w p. p \<in> set (mounted w)),
     os_listdir = (\<lambda>w p. map_of (dirs w) p),
     os_makedirs = (\<lambda>w p. if p \<in> set (map fst (dirs w)) then (True, w)
                           else if read_only w \<or> p \<in> set (files w) then (False, w)
                           else (True, w\<lparr>dirs := (p, []) # dirs w\<rparr>)),
     os_rmdir = (\<lambda>w p. if map_of (dirs w) p = Some [] \<and> p \<notin> set (mounted w) \<and> \<not> read_only w
                        then (True, w\<lparr>dirs := filter (\<lambda>d. fst d \<noteq> p) (dirs w)\<rparr>)
                        else (False, w)),
     run_mount = (\<lambda>w image target.
                    if \<not> has_mount w then (FileNotFoundError, w)
                    else if \<not> mount_executable w then (OtherOSError, w)
                    else if image \<in> set (files w) \<and> target \<in> set (map fst (dirs w))
                    then (Completed, w\<lparr>dirs := (target, [ascii ''README.TXT'']) # dirs w,
                                        mounted := target # mounted w\<rparr>)
                    else (CalledProcessError [] (ascii ''mount: failed to setup loop device''), w)),
     run_umount = (\<lambda>w target.
                    if \<not> has_mount w then (FileNotFoundError, w)
                    else if \<not> mount_executable w then (OtherOSError, w)
                    else if target \<in> set (mounted w) \<and> \<not> busy w
                    then (Completed, w\<lparr>dirs := (target, []) # dirs w,
                                        mounted := removeAll target (mounted w)\<rparr>)
                    else (CalledProcessError [] (ascii ''umount: target is busy''), w)),
     popen_xdg_open = (\<lambda>w p. if \<not> has_xdg_open w then (Popen_FileNotFoundError, w)
                              else if \<not> xdg_open_executable w then (Popen_OSError, w)
                              else (Started, w)) \<rparr>"

definition machine0 :: machine where
  "machine0 = \<lparr>files = [], dirs = [], mounted = [], read_only = False, busy = False,
                has_mount = True, mount_executable = True, has_xdg_open = True,
                xdg_open_executable = True\<rparr>"

text \<open>A runtime for that machine. Its alphanumeric table is the one of Latin-1; its strings
  are lowered letter by letter in ASCII, which is \<open>str.lower\<close> on the paths used here.\<close>

definition machine_rt :: runtime where
  "machine_rt = \<lparr>unicode_isalnum = latin1_isalnum, unicode_lower = map ascii_lower,
                 home = ascii ''/home/user'', cwd = ascii ''/home/user''\<rparr>"

definition iso_image :: str where
  "iso_image = ascii ''/data/Ubuntu-22.04.iso''"

definition image_mount_point :: str where
  "image_mount_point = (case get_mount_point machine_rt iso_image of Inr m \<Rightarrow> m | Inl e \<Rightarrow> [])"

text \<open>Five states of the machine: the image is a regular file and nothing is mounted; the
  path of the image is a directory; the image is mounted and there is no \<open>xdg-open\<close>;
  the image is mounted and \<open>xdg-open\<close> may not be run; a text file lies in \<open>/tmp\<close>.\<close>

definition file_machine :: machine where
  "file_machine = machine0\<lparr>files := [iso_image]\<rparr>"

definition dir_machine :: machine where
  "dir_machine = machine0\<lparr>dirs := [(iso_image, [ascii ''casper'']),
                                     (ascii ''/data'', [ascii ''Ubuntu-22.04.iso''])]\<rparr>"



definition txt_machine :: machine where
  "txt_machine = machine0\<lparr>files := [ascii ''/tmp/file.txt'']\<rparr>"


text \<open>Command lines: one argument too many, one too few, and an unknown action.\<close>

definition argv_extra :: "str list" where
  "argv_extra = [ascii ''iso_mount_tool.py'', ascii ''mount'', iso_image, ascii ''--verbose'']"

definition argv_short :: "str list" where
  "argv_short = [ascii ''iso_mount_tool.py'', ascii ''mount'']"

definition argv_eject :: "str list" where
  "argv_eject = [ascii ''iso_mount_tool.py'', ascii ''eject'', iso_image]"

section \<open>Properties of sanitize_filename\<close>

lemma is_word_underscore: "is_word rt underscore"
  by (simp add: is_word_def)

lemma safe_char_underscore: "safe_char rt underscore"
  by (simp add: safe_char_def is_word_underscore)

lemma replace_unsafe_safe: "c \<in> set (replace_unsafe rt s) \<Longrightarrow> safe_char rt c"
  by (auto simp: replace_unsafe_def safe_char_def is_word_underscore)

lemma set_collapse_underscores: "set (collapse_underscores s) \<subseteq> set s"
proof (induction s rule: collapse_underscores.induct)
  case 1
  show ?case by simp
next
  case (2 c cs)
  have "set (dropWhile (\<lambda>x. x = underscore) cs) \<subseteq> set cs"
    by (auto dest: set_dropWhileD)
  with 2 show ?case by auto
qed

lemma set_strip_underscores: "set (strip_underscores s) \<subseteq> set s"
  by (auto simp: strip_underscores_def dest!: set_dropWhileD)

lemma collapse_underscores_Nil: "collapse_underscores s = [] \<longleftrightarrow> s = []"
  by (cases s) auto

lemma hd_collapse_underscores: "hd (collapse_underscores s) = hd s"
  by (cases s) auto

lemma adjacent_underscores_Cons:
  "adjacent_underscores (a # s) = ((s \<noteq> [] \<and> a = underscore \<and> hd s = underscore) \<or> adjacent_underscores s)"
  by (cases s) auto

lemma adjacent_underscores_append:
  "adjacent_underscores (xs @ ys) =
     (adjacent_underscores xs \<or> adjacent_underscores ys
        \<or> (xs \<noteq> [] \<and> ys \<noteq> [] \<and> last xs = underscore \<and> hd ys = underscore))"
proof (induction xs)
  case Nil
  show ?case by simp
next
  case (Cons a xs)
  show ?case
    unfolding append_Cons adjacent_underscores_Cons [of a] Cons.IH
    by (cases xs) (auto simp: hd_append)
qed

lemma adjacent_underscores_rev: "adjacent_underscores (rev s) = adjacent_underscores s"
proof (induction s)
  case Nil
  show ?case by simp
next
  case (Cons a s)
  show ?case
    by (auto simp: adjacent_underscores_append adjacent_underscores_Cons Cons.IH hd_rev last_rev)
qed

lemma adjacent_underscores_dropWhile:
  "adjacent_underscores (dropWhile P s) \<Longrightarrow> adjacent_underscores s"
proof -
  assume a: "adjacent_underscores (dropWhile P s)"
  have "adjacent_underscores (takeWhile P s @ dropWhile P s)"
    unfolding adjacent_underscores_append using a by simp
  then show ?thesis by simp
qed

lemma collapse_no_adjacent: "\<not> adjacent_underscores (collapse_underscores s)"
proof (induction s rule: collapse_underscores.induct)
  case 1
  show ?case by simp
next
  case (2 c cs)
  show ?case
  proof (cases "c = underscore \<and> cs \<noteq> [] \<and> hd cs = underscore")
    case True
    let ?d = "dropWhile (\<lambda>x. x = underscore) cs"
    have "?d = [] \<or> hd ?d \<noteq> underscore"
      using hd_dropWhile [of "\<lambda>x. x = underscore" cs] by blast
    with True 2(1) show ?thesis
      by (auto simp: adjacent_underscores_Cons collapse_underscores_Nil hd_collapse_underscores)
  next
    case False
    with 2(2) show ?thesis
      by (auto simp: adjacent_underscores_Cons collapse_underscores_Nil hd_collapse_underscores)
  qed
qed

lemma strip_no_adjacent:
  "\<not> adjacent_underscores s \<Longrightarrow> \<not> adjacent_underscores (strip_underscores s)"
  unfolding strip_underscores_def adjacent_underscores_rev
  by (metis adjacent_underscores_dropWhile adjacent_underscores_rev)

lemma strip_no_edge: "\<not> edge_underscore (strip_underscores s)"
proof
  let ?P = "\<lambda>x. x = underscore"
  let ?t = "dropWhile ?P s"
  let ?u = "dropWhile ?P (rev ?t)"
  assume "edge_underscore (strip_underscores s)"
  then have ne: "?u \<noteq> []" and edge: "hd (rev ?u) = underscore \<or> last (rev ?u) = underscore"
    by (auto simp: edge_underscore_def strip_underscores_def)
  have u: "hd ?u \<noteq> underscore"
    using ne hd_dropWhile [of ?P "rev ?t"] by blast
  have split: "?t = rev ?u @ rev (takeWhile ?P (rev ?t))"
    by (metis rev_append rev_rev_ident takeWhile_dropWhile_id)
  have "?t \<noteq> []"
  proof
    assume "?t = []"
    then have "?u = []" by (simp only: rev.simps dropWhile.simps)
    with ne show False by simp
  qed
  then have t: "hd ?t \<noteq> underscore"
    using hd_dropWhile [of ?P s] by blast
  from ne have "hd (rev ?u) = hd ?t"
    by (subst (2) split) simp
  moreover from ne have "last (rev ?u) = hd ?u"
    by (simp add: last_rev)
  ultimately show False using edge u t by simp
qed

lemma replace_unsafe_id: "\<forall>c\<in>set s. safe_char rt c \<Longrightarrow> replace_unsafe rt s = s"
  by (simp add: replace_unsafe_def safe_char_def map_idI)

lemma collapse_underscores_id: "\<not> adjacent_underscores s \<Longrightarrow> collapse_underscores s = s"
  by (induction s rule: collapse_underscores.induct) (auto simp: adjacent_underscores_Cons)

lemma strip_underscores_id: "\<not> edge_underscore s \<Longrightarrow> strip_underscores s = s"
proof (cases "s = []")
  case True
  then show ?thesis by (simp add: strip_underscores_def)
next
  case False
  assume "\<not> edge_underscore s"
  with False have h: "hd s \<noteq> underscore" and l: "last s \<noteq> underscore"
    by (auto simp: edge_underscore_def)
  from False h have "dropWhile (\<lambda>x. x = underscore) s = s"
    by (cases s) auto
  moreover from False l have "dropWhile (\<lambda>x. x = underscore) (rev s) = rev s"
    by (cases "rev s") (auto simp: last_rev [symmetric] hd_rev)
  ultimately show ?thesis by (simp add: strip_underscores_def)
qed

lemma sanitize_safe: "c \<in> set (sanitize_filename rt s) \<Longrightarrow> safe_char rt c"
  unfolding sanitize_filename_def
  using set_strip_underscores set_collapse_underscores replace_unsafe_safe by blast

lemma sanitize_no_adjacent: "\<not> adjacent_underscores (sanitize_filename rt s)"
  unfolding sanitize_filename_def by (rule strip_no_adjacent) (rule collapse_no_adjacent)

lemma sanitize_no_edge: "\<not> edge_underscore (sanitize_filename rt s)"
  unfolding sanitize_filename_def by (rule strip_no_edge)

lemma sanitize_fixed:
  "\<forall>c\<in>set s. safe_char rt c \<Longrightarrow> \<not> adjacent_underscores s \<Longrightarrow> \<not> edge_underscore s
     \<Longrightarrow> sanitize_filename rt s = s"
  by (simp add: sanitize_filename_def replace_unsafe_id collapse_underscores_id strip_underscores_id)

section \<open>The stem of a path\<close>

lemma length_takeWhile_lt: "x \<in> set xs \<Longrightarrow> \<not> P x \<Longrightarrow> length (takeWhile P xs) < length xs"
  by (induction xs) auto

lemma basename_filename: "basename p = filename p"
proof (cases "slash \<in> set p")
  case False
  have "takeWhile (\<lambda>c. c \<noteq> slash) (rev p) = rev p"
    by (rule takeWhile_eq_all_conv [THEN iffD2]) (use False in auto)
  then have "filename p = p"
    by (simp only: filename_def rev_rev_ident)
  moreover have "basename p = p"
    using False by (simp add: basename_def rfind_def)
  ultimately show ?thesis by simp
next
  case True
  let ?P = "\<lambda>c. c \<noteq> slash"
  let ?n = "length (takeWhile ?P (rev p))"
  have "?n < length (rev p)"
    using True by (intro length_takeWhile_lt [of slash]) auto
  then have n: "?n < length p" by simp
  then have idx: "nat (rfind p slash + 1) = length p - ?n"
    using True by (simp add: rfind_def)
  have "rev (takeWhile ?P (rev p)) = rev (take ?n (rev p))"
    by (rule arg_cong [OF takeWhile_eq_take])
  also have "\<dots> = drop (length p - ?n) p"
    by (simp only: rev_take length_rev rev_rev_ident)
  finally have "filename p = drop (length p - ?n) p"
    by (simp only: filename_def)
  moreover have "basename p = drop (length p - ?n) p"
    by (simp only: basename_def Let_def idx)
  ultimately show ?thesis by simp
qed

lemma skip_leading_dots_eq:
  "0 \<le> i \<Longrightarrow> d \<le> int (length f) \<Longrightarrow>
   skip_leading_dots f i d =
     (if \<exists>j. nat i \<le> j \<and> j < nat d \<and> f ! j \<noteq> dot
      then (take (nat d) f, drop (nat d) f) else (f, []))"
proof (induction f i d rule: skip_leading_dots.induct)
  case (1 p i d)
  show ?case
  proof (cases "i < d")
    case False
    then have neg: "\<not> (\<exists>j. nat i \<le> j \<and> j < nat d \<and> p ! j \<noteq> dot)"
      using "1.prems" by auto
    from False have "skip_leading_dots p i d = (p, [])"
      by (subst skip_leading_dots.simps) simp
    with neg show ?thesis by (simp only: if_False)
  next
    case True
    with "1.prems" have lt: "nat i < length p" by linarith
    have n1: "nat (i + 1) = Suc (nat i)"
      using "1.prems"(1) by linarith
    have "drop (nat i) p = p ! nat i # drop (Suc (nat i)) p"
      using lt by (rule Cons_nth_drop_Suc [symmetric])
    then have sl: "slice p i (i + 1) = [p ! nat i]"
      by (simp add: slice_def n1)
    show ?thesis
    proof (cases "p ! nat i = dot")
      case False
      from True "1.prems" have "nat i < nat d" by linarith
      with False have pos: "\<exists>j. nat i \<le> j \<and> j < nat d \<and> p ! j \<noteq> dot"
        by (intro exI [of _ "nat i"]) simp
      from True False sl
      have "skip_leading_dots p i d = (take (nat d) p, drop (nat d) p)"
        by (subst skip_leading_dots.simps) simp
      with pos show ?thesis by (simp only: if_True)
    next
      case d: True
      have eq: "(\<exists>j. nat (i + 1) \<le> j \<and> j < nat d \<and> p ! j \<noteq> dot)
                  = (\<exists>j. nat i \<le> j \<and> j < nat d \<and> p ! j \<noteq> dot)"
      proof (intro iffI; elim exE conjE)
        fix j
        assume "nat (i + 1) \<le> j" "j < nat d" "p ! j \<noteq> dot"
        then show "\<exists>j. nat i \<le> j \<and> j < nat d \<and> p ! j \<noteq> dot"
          using n1 by (intro exI [of _ j]) simp
      next
        fix j
        assume a: "nat i \<le> j" "j < nat d" "p ! j \<noteq> dot"
        then have "j \<noteq> nat i" using d by auto
        with a show "\<exists>j. nat (i + 1) \<le> j \<and> j < nat d \<and> p ! j \<noteq> dot"
          using n1 by (intro exI [of _ j]) simp
      qed
      have "skip_leading_dots p i d = skip_leading_dots p (i + 1) d"
        using True d sl by (subst skip_leading_dots.simps) simp
      also have "\<dots> = (if \<exists>j. nat (i + 1) \<le> j \<and> j < nat d \<and> p ! j \<noteq> dot
                         then (take (nat d) p, drop (nat d) p) else (p, []))"
      proof (rule "1.IH")
        show "i < d" by (rule True)
        show "\<not> slice p i (i + 1) \<noteq> [dot]" using sl d by simp
        show "0 \<le> i + 1" using "1.prems"(1) by simp
        show "d \<le> int (length p)" by (rule "1.prems"(2))
      qed
      finally show ?thesis by (simp only: eq)
    qed
  qed
qed

lemma rfind_absent: "c \<notin> set s \<Longrightarrow> rfind s c = - 1"
  by (simp add: rfind_def)

lemma rfind_present:
  assumes "c \<in> set s"
  shows "0 \<le> rfind s c" and "rfind s c < int (length s)"
    and "nat (rfind s c) = length s - length (takeWhile (\<lambda>x. x \<noteq> c) (rev s)) - 1"
proof -
  have "length (takeWhile (\<lambda>x. x \<noteq> c) (rev s)) < length (rev s)"
    using assms by (intro length_takeWhile_lt [of c]) auto
  then have n: "length (takeWhile (\<lambda>x. x \<noteq> c) (rev s)) < length s" by simp
  have r: "rfind s c = int (length s) - 1 - int (length (takeWhile (\<lambda>x. x \<noteq> c) (rev s)))"
    using assms by (simp add: rfind_def)
  show "0 \<le> rfind s c" using n unfolding r by linarith
  show "rfind s c < int (length s)" unfolding r by linarith
  show "nat (rfind s c) = length s - length (takeWhile (\<lambda>x. x \<noteq> c) (rev s)) - 1"
    using n unfolding r by linarith
qed

lemma list_ex_take_nth:
  "n \<le> length f \<Longrightarrow> list_ex P (take n f) = (\<exists>j. j < n \<and> P (f ! j))"
proof -
  assume n: "n \<le> length f"
  then have len: "length (take n f) = n" by simp
  show ?thesis
  proof
    assume "list_ex P (take n f)"
    then obtain x where "x \<in> set (take n f)" "P x" by (auto simp: list_ex_iff)
    then obtain j where "j < length (take n f)" "take n f ! j = x"
      by (auto simp: in_set_conv_nth)
    with \<open>P x\<close> len show "\<exists>j. j < n \<and> P (f ! j)"
      by (intro exI [of _ j]) simp
  next
    assume "\<exists>j. j < n \<and> P (f ! j)"
    then obtain j where j: "j < n" "P (f ! j)" by blast
    then have "take n f ! j \<in> set (take n f)"
      using len by (intro nth_mem) simp
    with j show "list_ex P (take n f)"
      by (auto simp: list_ex_iff)
  qed
qed

lemma filename_no_slash: "slash \<notin> set (filename p)"
  by (auto simp: filename_def dest: set_takeWhileD)

lemma splitext_no_slash:
  assumes "slash \<notin> set f"
  shows "fst (splitext f) =
     (if dot \<in> set f \<and> list_ex (\<lambda>c. c \<noteq> dot)
            (take (length f - length (takeWhile (\<lambda>c. c \<noteq> dot) (rev f)) - 1) f)
      then take (length f - length (takeWhile (\<lambda>c. c \<noteq> dot) (rev f)) - 1) f else f)"
proof (cases "dot \<in> set f")
  case False
  then show ?thesis
    by (simp add: splitext_def rfind_absent assms)
next
  case True
  define d where "d = rfind f dot"
  note dp = rfind_present [OF True, folded d_def]
  have sp: "splitext f = skip_leading_dots f 0 d"
    using dp(1) by (simp add: splitext_def rfind_absent assms d_def)
  have "skip_leading_dots f 0 d = (if \<exists>j. nat 0 \<le> j \<and> j < nat d \<and> f ! j \<noteq> dot
                       then (take (nat d) f, drop (nat d) f) else (f, []))"
    using dp(2) by (intro skip_leading_dots_eq) auto
  then have e: "skip_leading_dots f 0 d = (if \<exists>j. j < nat d \<and> f ! j \<noteq> dot
                       then (take (nat d) f, drop (nat d) f) else (f, []))"
    by simp
  have fst: "fst (splitext f) = (if \<exists>j. j < nat d \<and> f ! j \<noteq> dot then take (nat d) f else f)"
    by (auto simp: sp e)
  have "nat d \<le> length f" using dp(2) by linarith
  then have ex: "list_ex (\<lambda>c. c \<noteq> dot) (take (nat d) f) = (\<exists>j. j < nat d \<and> f ! j \<noteq> dot)"
    by (rule list_ex_take_nth)
  show ?thesis
    unfolding fst dp(3) [symmetric] ex using True by simp
qed

lemma splitext_stem: "fst (splitext (basename p)) = stem p"
  unfolding basename_filename stem_def Let_def splitext_no_slash [OF filename_no_slash]
  by (simp only: length_rev)

section \<open>The claims about sanitize_filename\<close>

lemma sanitize_cafe:
  "sanitize_filename machine_rt [99, 97, 102, 233] = [99, 97, 102, 233]"
  by (simp add: sanitize_filename_def strip_underscores_def replace_unsafe_def is_word_def
      machine_rt_def latin1_isalnum_def ascii_alnum_def)

lemma sanitize_example:
  "sanitize_filename machine_rt (ascii ''__My  Disc (v2)__.iso_'') = ascii ''My_Disc_v2_.iso''"
  by (simp add: sanitize_filename_def strip_underscores_def replace_unsafe_def is_word_def
      machine_rt_def latin1_isalnum_def ascii_alnum_def ascii_def)

lemma sanitize_specials:
  "sanitize_filename machine_rt (ascii ''!? *'') = [] \<and> sanitize_filename machine_rt [] = []"
  by (simp add: sanitize_filename_def strip_underscores_def replace_unsafe_def is_word_def
      machine_rt_def latin1_isalnum_def ascii_alnum_def ascii_def)

text \<open>
  C2, as stated: the result of \<open>sanitize_filename\<close> holds only characters of
  \<open>[A-Za-z0-9_.-]\<close>, no two underscores in a row, and no underscore at either end.
  It fails on the name of code points 99, 97, 102, 233 (\<open>cafe\<close> with an acute accent): \<open>\w\<close> of a \<open>str\<close> pattern
  matches every alphanumeric code point of Unicode, so the letter U+00E9 is kept.
\<close>

theorem sanitize_ascii_class_counterexample:
  "\<not> (list_all ascii_safe (sanitize_filename machine_rt [99, 97, 102, 233])
      \<and> \<not> adjacent_underscores (sanitize_filename machine_rt [99, 97, 102, 233])
      \<and> \<not> edge_underscore (sanitize_filename machine_rt [99, 97, 102, 233]))"
  by (simp add: sanitize_cafe ascii_safe_def ascii_alnum_def)

text \<open>
  C2, amended: for every input string, the empty one and those of special characters only
  among them, the result of \<open>sanitize_filename\<close> holds only word characters (\<open>\w\<close>: the
  alphanumeric code points of Unicode and the underscore), dots and dashes, never two
  underscores in a row, and no underscore at its start or end.
\<close>

theorem sanitize_filename_shape:
  "list_all (safe_char rt) (sanitize_filename rt s)
     \<and> \<not> adjacent_underscores (sanitize_filename rt s)
     \<and> \<not> edge_underscore (sanitize_filename rt s)"
  by (simp add: list_all_iff sanitize_safe sanitize_no_adjacent sanitize_no_edge)

theorem sanitize_filename_shape_witness:
  "sanitize_filename machine_rt (ascii ''__My  Disc (v2)__.iso_'') = ascii ''My_Disc_v2_.iso''
     \<and> list_all (safe_char machine_rt) (ascii ''My_Disc_v2_.iso'')
     \<and> \<not> adjacent_underscores (ascii ''My_Disc_v2_.iso'')
     \<and> \<not> edge_underscore (ascii ''My_Disc_v2_.iso'')
     \<and> sanitize_filename machine_rt (ascii ''!? *'') = []"
  using sanitize_filename_shape [of machine_rt "ascii ''__My  Disc (v2)__.iso_''"]
  by (simp add: sanitize_example sanitize_specials)

text \<open>
  C9: \<open>sanitize_filename\<close> is idempotent: sanitizing a sanitized name changes nothing.
\<close>

theorem sanitize_filename_idempotent:
  "sanitize_filename rt (sanitize_filename rt s) = sanitize_filename rt s"
  by (rule sanitize_fixed) (auto simp: sanitize_safe sanitize_no_adjacent sanitize_no_edge)

section \<open>Encoding, hashing and the mount point\<close>

lemma encode_codepoint_ok:
  "c < 0xD800 \<or> (0xE000 \<le> c \<and> c < 0x110000) \<Longrightarrow> \<exists>bs. encode_codepoint c = Inr bs"
  by (auto simp: encode_codepoint_def)

lemma encode_codepoint_bad:
  "\<not> (c < 0xD800 \<or> (0xE000 \<le> c \<and> c < 0x110000)) \<Longrightarrow> encode_codepoint c = Inl UnicodeEncodeError"
  by (auto simp: encode_codepoint_def)

lemma encode_Inl: "encode s = Inl e \<Longrightarrow> e = UnicodeEncodeError"
  by (induction s arbitrary: e) (auto simp: encode_codepoint_def split: sum.splits if_splits)

lemma encode_encodable: "encodable s \<longleftrightarrow> (\<exists>bs. encode s = Inr bs)"
proof (induction s)
  case Nil
  show ?case by (simp add: encodable_def)
next
  case (Cons c s)
  show ?case
  proof (cases "c < 0xD800 \<or> (0xE000 \<le> c \<and> c < 0x110000)")
    case True
    then obtain bs where "encode_codepoint c = Inr bs"
      using encode_codepoint_ok by blast
    with True Cons show ?thesis
      by (auto simp: encodable_def split: sum.splits)
  next
    case False
    then have "encode_codepoint c = Inl UnicodeEncodeError"
      by (rule encode_codepoint_bad)
    with False show ?thesis
      by (auto simp: encodable_def)
  qed
qed

lemma encode_utf8_bytes: "encodable s \<Longrightarrow> encode s = Inr (utf8_bytes s)"
  by (auto simp: encode_encodable utf8_bytes_def)

lemma encode_not_encodable: "\<not> encodable s \<Longrightarrow> encode s = Inl UnicodeEncodeError"
  using encode_Inl [of s] by (cases "encode s") (auto simp: encode_encodable)

lemma length_be_bytes: "length (be_bytes n v) = n"
  by (simp add: be_bytes_def)

lemma length_sha256: "length (sha256 m) = 32"
  by (simp add: sha256_def length_be_bytes split: prod.splits)

lemma length_hexdigest: "length (hexdigest bs) = 2 * length bs"
  by (induction bs) (simp_all add: hexdigest_def)

lemma hex_digit_is_hex: "n < 16 \<Longrightarrow> is_hex_digit (hex_digit n)"
  by (auto simp: hex_digit_def is_hex_digit_def)

lemma unat_byte_bound: "unat (b :: byte) < 256"
  using unsigned_less [of b, where ?'a = nat] by simp

lemma hexdigest_hex: "c \<in> set (hexdigest bs) \<Longrightarrow> is_hex_digit c"
proof -
  have d: "\<And>b :: byte. unat b div 16 < 16"
    using unat_byte_bound by (simp add: less_mult_imp_div_less)
  assume "c \<in> set (hexdigest bs)"
  then show ?thesis
    by (auto simp: hexdigest_def intro!: hex_digit_is_hex d)
qed

lemma length_hash8: "length (hash8 p) = 8"
  by (simp add: hash8_def length_hexdigest length_sha256)

lemma hash8_hex: "c \<in> set (hash8 p) \<Longrightarrow> is_hex_digit c"
  unfolding hash8_def by (auto dest: in_set_takeD hexdigest_hex)

lemma hex_digit_safe: "is_hex_digit c \<Longrightarrow> is_word rt c \<and> c \<noteq> underscore \<and> c \<noteq> slash \<and> c \<noteq> dot"
  by (auto simp: is_hex_digit_def is_word_def ascii_alnum_def)

lemma no_underscore_not_adjacent: "underscore \<notin> set h \<Longrightarrow> \<not> adjacent_underscores h"
  by (induction h) (auto simp: adjacent_underscores_Cons)

lemma dropWhile_append_clean:
  "h \<noteq> [] \<Longrightarrow> \<not> P (hd h) \<Longrightarrow> dropWhile P (b @ h) = dropWhile P b @ h"
  by (cases h) (auto simp: dropWhile_append)

lemma collapse_append_clean:
  "h \<noteq> [] \<Longrightarrow> underscore \<notin> set h \<Longrightarrow>
     collapse_underscores (a @ h) = collapse_underscores a @ h"
proof (induction a rule: collapse_underscores.induct)
  case 1
  then show ?case
    by (simp add: collapse_underscores_id no_underscore_not_adjacent)
next
  case (2 c cs)
  from "2.prems" have hd: "hd h \<noteq> underscore" by (cases h) auto
  have cond: "(cs @ h \<noteq> [] \<and> hd (cs @ h) = underscore) = (cs \<noteq> [] \<and> hd cs = underscore)"
    using "2.prems"(1) hd by (cases cs) auto
  show ?case
  proof (cases "c = underscore \<and> cs \<noteq> [] \<and> hd cs = underscore")
    case True
    have dw: "dropWhile (\<lambda>x. x = underscore) (cs @ h) = dropWhile (\<lambda>x. x = underscore) cs @ h"
      using "2.prems"(1) hd by (rule dropWhile_append_clean)
    have "collapse_underscores ((c # cs) @ h)
            = underscore # collapse_underscores (dropWhile (\<lambda>x. x = underscore) (cs @ h))"
      using True cond by simp
    also have "\<dots> = underscore # collapse_underscores (dropWhile (\<lambda>x. x = underscore) cs) @ h"
      unfolding dw using "2.IH"(1) [OF True "2.prems"] by simp
    finally show ?thesis using True by simp
  next
    case False
    then have "collapse_underscores ((c # cs) @ h) = c # collapse_underscores (cs @ h)"
      using cond by auto
    also have "\<dots> = c # collapse_underscores cs @ h"
      using "2.IH"(2) [OF False "2.prems"] by simp
    finally show ?thesis using False by auto
  qed
qed

lemma strip_append_clean:
  assumes "h \<noteq> []" "underscore \<notin> set h"
  shows "strip_underscores (b @ h) = dropWhile (\<lambda>x. x = underscore) b @ h"
proof -
  let ?P = "\<lambda>x. x = underscore"
  from assms have hd: "\<not> ?P (hd h)" by (cases h) auto
  have "last h \<in> set h" using assms(1) by (rule last_in_set)
  then have "last h \<noteq> underscore" using assms(2) by metis
  then have lst: "\<not> ?P (hd (rev h))" by (simp add: hd_rev)
  have "dropWhile ?P (b @ h) = dropWhile ?P b @ h"
    using assms(1) hd by (rule dropWhile_append_clean)
  moreover have "dropWhile ?P (rev h @ rev (dropWhile ?P b)) = rev h @ rev (dropWhile ?P b)"
    using assms(1) lst by (cases "rev h") auto
  ultimately show ?thesis
    by (simp add: strip_underscores_def)
qed

lemma sanitize_append_hex:
  assumes "h \<noteq> []" "\<forall>c\<in>set h. is_hex_digit c"
  shows "sanitize_filename rt (x @ h) =
           dropWhile (\<lambda>c. c = underscore) (collapse_underscores (replace_unsafe rt x)) @ h"
proof -
  have nus: "underscore \<notin> set h"
    using assms(2) hex_digit_safe by blast
  have "replace_unsafe rt h = h"
    using assms(2) hex_digit_safe by (intro replace_unsafe_id) (auto simp: safe_char_def)
  then have "replace_unsafe rt (x @ h) = replace_unsafe rt x @ h"
    by (simp add: replace_unsafe_def)
  then show ?thesis
    by (simp add: sanitize_filename_def collapse_append_clean [OF assms(1) nus]
        strip_append_clean [OF assms(1) nus])
qed

lemma endswith_last: "endswith a [c] \<Longrightarrow> a \<noteq> [] \<and> last a = c"
proof -
  assume e: "endswith a [c]"
  then have ne: "a \<noteq> []" by (auto simp: endswith_def)
  from e have "drop (length a - 1) a = [c]" by (simp add: endswith_def)
  moreover have "last (drop (length a - 1) a) = last a"
    using ne by (intro last_drop) (cases a, auto)
  ultimately show ?thesis using ne by simp
qed

lemma endswith_append: "endswith (a @ b) b"
  by (simp add: endswith_def)

lemma BASE_MOUNT_DIR_last: "BASE_MOUNT_DIR rt \<noteq> [] \<and> last (BASE_MOUNT_DIR rt) = 115"
  by (simp add: BASE_MOUNT_DIR_def path_join_def ascii_def startswith_def)

lemma path_join_BASE:
  "slash \<notin> set name \<Longrightarrow> path_join (BASE_MOUNT_DIR rt) name = BASE_MOUNT_DIR rt @ [slash] @ name"
proof -
  assume n: "slash \<notin> set name"
  have "\<not> startswith name [slash]"
  proof
    assume "startswith name [slash]"
    then have "take 1 name = [slash]" by (simp add: startswith_def)
    then have "slash \<in> set (take 1 name)" by simp
    then show False using n by (auto dest: in_set_takeD)
  qed
  moreover have "\<not> endswith (BASE_MOUNT_DIR rt) [slash]"
    using endswith_last [of "BASE_MOUNT_DIR rt" slash] BASE_MOUNT_DIR_last [of rt] by auto
  ultimately show ?thesis
    using BASE_MOUNT_DIR_last [of rt] by (simp add: path_join_def)
qed

lemma sanitize_no_slash: "slash \<notin> set (sanitize_filename rt s)"
proof
  assume "slash \<in> set (sanitize_filename rt s)"
  then have "safe_char rt slash" by (rule sanitize_safe)
  then show False by (simp add: safe_char_def is_word_def ascii_alnum_def)
qed

lemma get_mount_point_encodable:
  "encodable P \<Longrightarrow> get_mount_point rt P =
     Inr (BASE_MOUNT_DIR rt @ [slash] @ sanitize_filename rt (stem P @ [underscore] @ hash8 P))"
  by (simp add: get_mount_point_def encode_utf8_bytes splitext_stem hash8_def [symmetric]
      path_join_BASE sanitize_no_slash)

lemma get_mount_point_not_encodable:
  "\<not> encodable P \<Longrightarrow> get_mount_point rt P = Inl UnicodeEncodeError"
  by (simp add: get_mount_point_def encode_not_encodable)

lemma mount_dir_name_suffix:
  "\<exists>y. sanitize_filename rt (stem P @ [underscore] @ hash8 P) = y @ hash8 P"
proof -
  have ne: "hash8 P \<noteq> []" using length_hash8 [of P] by auto
  have "sanitize_filename rt ((stem P @ [underscore]) @ hash8 P) =
          dropWhile (\<lambda>c. c = underscore) (collapse_underscores (replace_unsafe rt (stem P @ [underscore]))) @ hash8 P"
    using ne by (rule sanitize_append_hex) (auto dest: hash8_hex)
  then show ?thesis by auto
qed

lemma get_mount_point_child:
  assumes "encodable P"
  shows "\<exists>mp. get_mount_point rt P = Inr mp \<and> child_of (BASE_MOUNT_DIR rt) mp
           \<and> mp \<noteq> BASE_MOUNT_DIR rt \<and> endswith mp (hash8 P)"
proof -
  let ?name = "sanitize_filename rt (stem P @ [underscore] @ hash8 P)"
  let ?mp = "BASE_MOUNT_DIR rt @ [slash] @ ?name"
  obtain y where y: "?name = y @ hash8 P"
    using mount_dir_name_suffix by blast
  then have len: "8 \<le> length ?name"
    using length_hash8 [of P] by simp
  then have ne: "?name \<noteq> []" "?name \<noteq> [dot]" "?name \<noteq> [dot, dot]"
    by auto
  have "child_of (BASE_MOUNT_DIR rt) ?mp"
    using ne sanitize_no_slash [of rt] by (simp add: child_of_def)
  moreover have "?mp \<noteq> BASE_MOUNT_DIR rt" by simp
  moreover have "endswith ?mp (hash8 P)"
    using endswith_append [of "BASE_MOUNT_DIR rt @ [slash] @ y" "hash8 P"] y by simp
  ultimately show ?thesis
    using get_mount_point_encodable [OF assms, of rt] by simp
qed

lemma encodable_image: "encodable iso_image"
  by (simp add: encodable_def iso_image_def ascii_def)

lemma stem_image: "stem iso_image = ascii ''Ubuntu-22.04''"
  by (simp add: stem_def filename_def iso_image_def ascii_def)

lemma BASE_MOUNT_DIR_machine: "BASE_MOUNT_DIR machine_rt = ascii ''/home/user/.iso_mounts''"
  by (simp add: BASE_MOUNT_DIR_def machine_rt_def path_join_def startswith_def endswith_def
      ascii_def)

lemma mount_dir_name_image:
  "sanitize_filename machine_rt (stem iso_image @ [underscore] @ hash8 iso_image)
     = ascii ''Ubuntu-22.04_'' @ hash8 iso_image"
proof -
  have ne: "hash8 iso_image \<noteq> []" using length_hash8 [of iso_image] by auto
  have a: "stem iso_image @ [underscore] @ hash8 iso_image
             = (stem iso_image @ [underscore]) @ hash8 iso_image"
    by simp
  have b: "sanitize_filename machine_rt ((stem iso_image @ [underscore]) @ hash8 iso_image) =
          dropWhile (\<lambda>c. c = underscore)
            (collapse_underscores (replace_unsafe machine_rt (stem iso_image @ [underscore])))
          @ hash8 iso_image"
    using ne by (rule sanitize_append_hex) (auto dest: hash8_hex)
  have c: "dropWhile (\<lambda>c. c = underscore)
            (collapse_underscores (replace_unsafe machine_rt (stem iso_image @ [underscore])))
          = ascii ''Ubuntu-22.04_''"
    by (simp add: stem_image replace_unsafe_def is_word_def ascii_alnum_def ascii_def)
  show ?thesis by (simp only: a b c)
qed

lemma get_mount_point_image: "get_mount_point machine_rt iso_image = Inr image_mount_point"
  by (simp add: image_mount_point_def get_mount_point_encodable encodable_image)

lemma image_mount_point_eq:
  "image_mount_point = ascii ''/home/user/.iso_mounts/Ubuntu-22.04_'' @ hash8 iso_image"
proof -
  have "image_mount_point = BASE_MOUNT_DIR machine_rt @ [slash] @
          sanitize_filename machine_rt (stem iso_image @ [underscore] @ hash8 iso_image)"
    by (simp only: image_mount_point_def get_mount_point_encodable [OF encodable_image]
        sum.case)
  then have "image_mount_point
               = ascii ''/home/user/.iso_mounts'' @ [slash] @ ascii ''Ubuntu-22.04_'' @ hash8 iso_image"
    by (simp only: mount_dir_name_image BASE_MOUNT_DIR_machine)
  then show ?thesis by (simp add: ascii_def)
qed

section \<open>The claims about get_mount_point\<close>

text \<open>
  C1, as stated: for every image path \<open>P\<close>, \<open>get_mount_point\<close> returns the base directory
  joined with \<open>sanitize(stem(P) + "_" + hash8(P))\<close>. It fails on a path that holds a
  surrogate code point, here \<open>/mnt/\<close>, U+DCFF, \<open>.iso\<close>, which is how the runtime hands over
  a file name with the byte FF: \<open>iso_path.encode()\<close> raises \<open>UnicodeEncodeError\<close> and
  nothing is returned.
\<close>

theorem get_mount_point_surrogate_counterexample:
  "get_mount_point machine_rt (ascii ''/mnt/'' @ [0xDCFF] @ ascii ''.iso'')
     \<noteq> Inr (BASE_MOUNT_DIR machine_rt @ [slash] @
            sanitize_filename machine_rt
              (stem (ascii ''/mnt/'' @ [0xDCFF] @ ascii ''.iso'') @ [underscore]
                 @ hash8 (ascii ''/mnt/'' @ [0xDCFF] @ ascii ''.iso'')))
   \<and> get_mount_point machine_rt (ascii ''/mnt/'' @ [0xDCFF] @ ascii ''.iso'')
       = Inl UnicodeEncodeError"
proof -
  have "\<not> encodable (ascii ''/mnt/'' @ [0xDCFF] @ ascii ''.iso'')"
    by (simp add: encodable_def ascii_def)
  then show ?thesis
    by (simp add: get_mount_point_not_encodable)
qed

text \<open>
  C1, amended: for every image path \<open>P\<close> that has UTF-8 bytes (no surrogate code point),
  \<open>get_mount_point\<close> returns exactly the base directory, a slash, and
  \<open>sanitize(stem(P) + "_" + hash8(P))\<close>, where \<open>hash8(P)\<close> is the first 8 hexadecimal
  characters of the SHA-256 digest of the UTF-8 bytes of the path string and \<open>stem(P)\<close> is
  the file name of \<open>P\<close> without its extension; for any other path it raises
  \<open>UnicodeEncodeError\<close>.
\<close>

theorem get_mount_point_spec:
  "get_mount_point rt P =
     (if encodable P
      then Inr (BASE_MOUNT_DIR rt @ [slash] @
                sanitize_filename rt (stem P @ [underscore] @ hash8 P))
      else Inl UnicodeEncodeError)"
  by (simp add: get_mount_point_encodable get_mount_point_not_encodable)

theorem get_mount_point_spec_witness:
  "encodable iso_image
   \<and> stem iso_image = ascii ''Ubuntu-22.04''
   \<and> get_mount_point machine_rt iso_image
       = Inr (ascii ''/home/user/.iso_mounts'' @ [slash] @ ascii ''Ubuntu-22.04_''
              @ hash8 iso_image)"
proof -
  have "get_mount_point machine_rt iso_image =
          Inr (BASE_MOUNT_DIR machine_rt @ [slash] @
               sanitize_filename machine_rt (stem iso_image @ [underscore] @ hash8 iso_image))"
    using get_mount_point_spec [where rt = machine_rt and P = iso_image]
    by (simp only: encodable_image if_True)
  then have "get_mount_point machine_rt iso_image
       = Inr (ascii ''/home/user/.iso_mounts'' @ [slash] @ ascii ''Ubuntu-22.04_''
              @ hash8 iso_image)"
    by (simp only: mount_dir_name_image BASE_MOUNT_DIR_machine)
  with encodable_image stem_image show ?thesis by (intro conjI)
qed

text \<open>
  C10: the directory name that \<open>get_mount_point\<close> produces is never empty, because the 8
  hexadecimal characters of the hash survive the sanitization at its end; so every mount
  point it returns lies directly below the base directory and differs from it. It returns
  one for every path that has UTF-8 bytes; for the others nothing is produced.
\<close>

theorem get_mount_point_below_base:
  "(case get_mount_point rt P of
      Inl e \<Rightarrow> \<not> encodable P
    | Inr mp \<Rightarrow> encodable P \<and> child_of (BASE_MOUNT_DIR rt) mp \<and> mp \<noteq> BASE_MOUNT_DIR rt
                \<and> endswith mp (hash8 P) \<and> length (hash8 P) = 8
                \<and> list_all is_hex_digit (hash8 P))"
proof (cases "encodable P")
  case True
  then obtain mp where "get_mount_point rt P = Inr mp" "child_of (BASE_MOUNT_DIR rt) mp"
      "mp \<noteq> BASE_MOUNT_DIR rt" "endswith mp (hash8 P)"
    using get_mount_point_child by blast
  with True show ?thesis
    by (simp add: length_hash8 list_all_iff hash8_hex)
next
  case False
  then show ?thesis
    by (simp add: get_mount_point_not_encodable)
qed

theorem get_mount_point_below_base_witness:
  "get_mount_point machine_rt iso_image = Inr image_mount_point
   \<and> child_of (ascii ''/home/user/.iso_mounts'') image_mount_point
   \<and> image_mount_point \<noteq> ascii ''/home/user/.iso_mounts''
   \<and> endswith image_mount_point (hash8 iso_image)"
  using get_mount_point_below_base [where rt = machine_rt and P = iso_image]
  by (simp add: get_mount_point_image BASE_MOUNT_DIR_machine)

section \<open>The process and its calls\<close>

lemma calls_print [simp]: "calls (print s m p) = calls p"
  by (simp add: print_def)

lemma world_print [simp]: "world (print s m p) = world p"
  by (simp add: print_def)

lemma printed_print [simp]: "printed (print s m p) = printed p @ [(s, m)]"
  by (simp add: print_def)

lemma calls_perform [simp]: "calls (perform c w' p) = calls p @ [(world p, c)]"
  by (simp add: perform_def)

lemma world_perform [simp]: "world (perform c w' p) = w'"
  by (simp add: perform_def)

lemma printed_perform [simp]: "printed (perform c w' p) = printed p"
  by (simp add: perform_def)

lemma calls_open_mount_point:
  "calls (snd (open_mount_point sys mp p)) = calls p @ [(world p, Popen_xdg_open mp)]"
  by (simp add: open_mount_point_def Let_def split: prod.splits popen.splits)

lemma printed_open_mount_point:
  "printed (snd (open_mount_point sys mp p)) =
     printed p @ (if fst (popen_xdg_open sys (world p) mp) = Popen_FileNotFoundError
                  then [(Stdout, Xdg_open_missing mp)] else [])"
  by (simp add: open_mount_point_def Let_def split: prod.splits popen.splits)

lemma fst_open_mount_point:
  "fst (open_mount_point sys mp p) =
     (if fst (popen_xdg_open sys (world p) mp) = Popen_OSError then Some OSError else None)"
  by (simp add: open_mount_point_def Let_def split: prod.splits popen.splits)



lemma calls_try_rmdir:
  "calls (try_rmdir sys mp done warning p) = calls p @ [(world p, Rmdir mp)]"
  by (simp add: try_rmdir_def Let_def split: prod.splits)

lemma calls_uncaught [simp]: "calls (snd (uncaught e p)) = calls p"
  by (simp add: uncaught_def)

lemma exists_and_empty_True:
  "exists_and_empty sys w mp = Inr True \<Longrightarrow> path_exists sys w mp \<and> os_listdir sys w mp = Some []"
  by (auto simp: exists_and_empty_def split: if_splits option.splits)

lemma open_mount_point_removes_only_empty:
  "open_mount_point sys mp p = (r, p') \<Longrightarrow> removes_only_empty sys (calls p)
     \<Longrightarrow> removes_only_empty sys (calls p')"
  using calls_open_mount_point [of sys mp p] by (simp add: removes_only_empty_def)

lemma mount_iso_removes_only_empty:
  "removes_only_empty sys (calls p) \<Longrightarrow> removes_only_empty sys (calls (snd (mount_iso sys rt path p)))"
  by (auto simp: mount_iso_def Let_def calls_try_rmdir removes_only_empty_def
      dest!: exists_and_empty_True
      dest: open_mount_point_removes_only_empty [unfolded removes_only_empty_def]
      split: sum.splits prod.splits completed.splits option.splits if_splits)

lemma unmount_iso_removes_only_empty:
  "removes_only_empty sys (calls p) \<Longrightarrow> removes_only_empty sys (calls (snd (unmount_iso sys rt path p)))"
  by (auto simp: unmount_iso_def Let_def calls_try_rmdir
      removes_only_empty_def
      dest!: exists_and_empty_True
      split: sum.splits prod.splits completed.splits if_splits)

lemma main_removes_only_empty:
  "removes_only_empty sys (calls p) \<Longrightarrow> removes_only_empty sys (calls (snd (main sys rt argv p)))"
  by (simp add: main_def Let_def mount_iso_removes_only_empty unmount_iso_removes_only_empty)

section \<open>Running the tool on the machine\<close>

lemma abspath_image: "abspath machine_rt iso_image = iso_image"
  by (simp add: abspath_def normpath_def normpath_step_def startswith_def iso_image_def ascii_def)

lemma abspath_data: "abspath machine_rt (ascii ''/data'') = ascii ''/data''"
  by (simp add: abspath_def normpath_def normpath_step_def startswith_def ascii_def)

lemma abspath_txt: "abspath machine_rt (ascii ''/tmp/file.txt'') = ascii ''/tmp/file.txt''"
  by (simp add: abspath_def normpath_def normpath_step_def startswith_def ascii_def)

lemma lower_txt: "\<not> endswith (lower machine_rt (ascii ''/tmp/file.txt'')) (ascii ''.iso'')"
  by (simp add: lower_def ascii_lower_def endswith_def ascii_def)


lemma lower_image: "endswith (lower machine_rt iso_image) (ascii ''.iso'')"
  by (simp add: lower_def ascii_lower_def endswith_def iso_image_def ascii_def)

lemma lower_data: "\<not> endswith (lower machine_rt (ascii ''/data'')) (ascii ''.iso'')"
  by (simp add: lower_def ascii_lower_def endswith_def ascii_def)

lemma lower_notes: "\<not> endswith (lower machine_rt (ascii ''/home/notes.txt'')) (ascii ''.iso'')"
  by (simp add: lower_def ascii_lower_def endswith_def ascii_def)

lemma mount_point_not_image: "image_mount_point \<noteq> iso_image"
  by (simp add: image_mount_point_eq iso_image_def ascii_def)

lemma mount_point_not_base: "image_mount_point \<noteq> ascii ''/home/user/.iso_mounts''"
  by (simp add: image_mount_point_eq ascii_def)

lemma mount_point_not_data: "image_mount_point \<noteq> ascii ''/data''"
  by (simp add: image_mount_point_eq ascii_def)

lemma base_not_image: "ascii ''/home/user/.iso_mounts'' \<noteq> iso_image"
  by (simp add: iso_image_def ascii_def)

lemma base_not_data: "ascii ''/home/user/.iso_mounts'' \<noteq> ascii ''/data''"
  by (simp add: ascii_def)

lemma image_not_data: "iso_image \<noteq> ascii ''/data''"
  by (simp add: iso_image_def ascii_def)

lemmas machine_neq = mount_point_not_image mount_point_not_base mount_point_not_data
  base_not_image base_not_data image_not_data
  mount_point_not_image [symmetric] mount_point_not_base [symmetric]
  mount_point_not_data [symmetric] base_not_image [symmetric] base_not_data [symmetric]
  image_not_data [symmetric]

lemmas machine_run = mount_iso_def unmount_iso_def main_def Let_def path_exists_def
  is_mounted_def exists_and_empty_def try_rmdir_def open_mount_point_def uncaught_def
  machine_os_def machine0_def start_def print_def perform_def
  get_mount_point_image abspath_image lower_image BASE_MOUNT_DIR_machine machine_neq

section \<open>The claims about mount_iso, unmount_iso and main\<close>

text \<open>
  C3, as stated: a path that does not resolve to an existing regular file makes
  \<open>mount_iso\<close> fail with the not-found error before any other check, a directory among
  them. It fails on a directory: \<open>os.path.exists\<close> holds of it, so a directory named
  \<open>/data/Ubuntu-22.04.iso\<close> passes both checks and is handed to \<open>mount\<close>, and the
  directory \<open>/data\<close> is rejected as not being an ISO file.
\<close>

theorem mount_iso_directory_counterexample:
  "os_stat machine_os dir_machine iso_image = Some Directory
   \<and> map snd (calls (snd (mount_iso machine_os machine_rt iso_image (start dir_machine))))
       = [Makedirs (ascii ''/home/user/.iso_mounts''), Makedirs image_mount_point,
          Run_mount iso_image image_mount_point, Rmdir image_mount_point]
   \<and> printed (snd (mount_iso machine_os machine_rt iso_image (start dir_machine)))
       = [(Stdout, Attempting_mount iso_image image_mount_point),
          (Stderr, Mount_failed [] (ascii ''mount: failed to setup loop device'')),
          (Stdout, Cleaned_after_failed_mount image_mount_point)]
   \<and> os_stat machine_os dir_machine (ascii ''/data'') = Some Directory
   \<and> printed (snd (mount_iso machine_os machine_rt (ascii ''/data'') (start dir_machine)))
       = [(Stderr, Not_an_iso (ascii ''/data''))]"
  by (simp add: machine_run dir_machine_def abspath_data lower_data)

text \<open>
  C3, amended: for every input path, if nothing exists at its absolute path (no file, no
  directory, nothing else that \<open>os.path.exists\<close> finds), \<open>mount_iso\<close> fails with the
  not-found error and exit code 1 before any other check and without any call that acts
  on the system; an existing directory passes this check.
\<close>

theorem mount_iso_not_found:
  assumes "\<not> path_exists sys (world p) (abspath rt path)"
  shows "mount_iso sys rt path p = (Exit 1, print Stderr (Iso_not_found (abspath rt path)) p)
         \<and> exit_code (fst (mount_iso sys rt path p)) = 1
         \<and> calls (snd (mount_iso sys rt path p)) = calls p
         \<and> world (snd (mount_iso sys rt path p)) = world p"
  using assms by (simp add: mount_iso_def Let_def exit_code_def)

theorem mount_iso_not_found_witness:
  "\<not> path_exists machine_os machine0 iso_image
   \<and> mount_iso machine_os machine_rt iso_image (start machine0)
       = (Exit 1, print Stderr (Iso_not_found iso_image) (start machine0))
   \<and> calls (snd (mount_iso machine_os machine_rt iso_image (start machine0))) = []"
proof -
  have h: "\<not> path_exists machine_os (world (start machine0)) (abspath machine_rt iso_image)"
    by (simp add: path_exists_def machine_os_def machine0_def start_def)
  show ?thesis
    using h mount_iso_not_found [OF h]
    by (simp add: abspath_image start_def)
qed

text \<open>
  C4, as stated: a path that does not end in \<open>.iso\<close> makes \<open>mount_iso\<close> exit with code 1
  and the not-an-ISO message whether or not the file exists. It fails on \<open>/tmp/file.txt\<close>
  where no such file exists: the existence check comes first, and the message is the
  not-found one.
\<close>

theorem mount_iso_missing_txt_counterexample:
  "\<not> endswith (lower machine_rt (abspath machine_rt (ascii ''/tmp/file.txt''))) (ascii ''.iso'')
   \<and> printed (snd (mount_iso machine_os machine_rt (ascii ''/tmp/file.txt'') (start machine0)))
       = [(Stderr, Iso_not_found (ascii ''/tmp/file.txt''))]"
  by (simp add: machine_run abspath_txt lower_txt)

text \<open>
  C4, amended: for every path whose absolute form does not end in \<open>.iso\<close>, compared in
  lower case, \<open>mount_iso\<close> exits with code 1 whether or not the file exists, without any
  call that acts on the system; the message is the not-an-ISO one when the path exists and
  the not-found one when it does not.
\<close>

theorem mount_iso_not_an_iso:
  assumes "\<not> endswith (lower rt (abspath rt path)) (ascii ''.iso'')"
  shows "mount_iso sys rt path p =
           (Exit 1,
            print Stderr
              (if path_exists sys (world p) (abspath rt path)
               then Not_an_iso (abspath rt path) else Iso_not_found (abspath rt path)) p)
         \<and> exit_code (fst (mount_iso sys rt path p)) = 1
         \<and> calls (snd (mount_iso sys rt path p)) = calls p"
  using assms by (simp add: mount_iso_def Let_def exit_code_def)

theorem mount_iso_not_an_iso_witness:
  "path_exists machine_os txt_machine (ascii ''/tmp/file.txt'')
   \<and> mount_iso machine_os machine_rt (ascii ''/tmp/file.txt'') (start txt_machine)
       = (Exit 1, print Stderr (Not_an_iso (ascii ''/tmp/file.txt'')) (start txt_machine))"
proof -
  have h: "\<not> endswith (lower machine_rt (abspath machine_rt (ascii ''/tmp/file.txt'')))
                (ascii ''.iso'')"
    by (simp add: abspath_txt lower_txt)
  have e: "path_exists machine_os txt_machine (ascii ''/tmp/file.txt'')"
    by (simp add: path_exists_def machine_os_def machine0_def txt_machine_def)
  show ?thesis
    using e mount_iso_not_an_iso [OF h, of machine_os "start txt_machine"]
    by (simp add: abspath_txt start_def)
qed







text \<open>
  C7, as stated: a command line with any number of arguments other than two, or with an
  action other than \<open>mount\<close> and \<open>unmount\<close>, exits with code 1 and a message on the error
  stream and runs no mount or unmount. It fails with three arguments: \<open>main\<close> only asks for
  at least two, ignores the rest, and here mounts the image and ends with code 0.
\<close>

theorem main_extra_argument_counterexample:
  "length argv_extra = 4
   \<and> fst (main machine_os machine_rt argv_extra (start file_machine)) = Returned
   \<and> exit_code (fst (main machine_os machine_rt argv_extra (start file_machine))) = 0
   \<and> map snd (calls (snd (main machine_os machine_rt argv_extra (start file_machine))))
       = [Makedirs (ascii ''/home/user/.iso_mounts''), Makedirs image_mount_point,
          Run_mount iso_image image_mount_point, Popen_xdg_open image_mount_point]"
  by (simp add: argv_extra_def machine_run file_machine_def exit_code_def)

text \<open>
  C7, amended: for every command line with fewer than two arguments after the program
  name, or with an action that is neither \<open>mount\<close> nor \<open>unmount\<close>, the tool exits with
  code 1, prints the usage lines or the unknown-action error on the error stream, and makes
  no call that acts on the system.
\<close>

theorem main_usage_error:
  assumes "length argv < 3 \<or> (argv ! 1 \<noteq> ascii ''mount'' \<and> argv ! 1 \<noteq> ascii ''unmount'')"
  shows "main sys rt argv p =
           (Exit 1,
            if length argv < 3 then print Stderr Actions_line (print Stderr Usage_line p)
            else print Stderr (Unknown_action (argv ! 1)) p)
         \<and> exit_code (fst (main sys rt argv p)) = 1
         \<and> calls (snd (main sys rt argv p)) = calls p
         \<and> world (snd (main sys rt argv p)) = world p"
  using assms by (auto simp: main_def Let_def exit_code_def)

theorem main_usage_error_witness:
  "main machine_os machine_rt argv_short (start file_machine)
     = (Exit 1, print Stderr Actions_line (print Stderr Usage_line (start file_machine)))
   \<and> main machine_os machine_rt argv_eject (start file_machine)
     = (Exit 1, print Stderr (Unknown_action (ascii ''eject'')) (start file_machine))"
proof -
  have s: "length argv_short < 3 \<or>
           (argv_short ! 1 \<noteq> ascii ''mount'' \<and> argv_short ! 1 \<noteq> ascii ''unmount'')"
    by (simp add: argv_short_def)
  have e: "length argv_eject < 3 \<or>
           (argv_eject ! 1 \<noteq> ascii ''mount'' \<and> argv_eject ! 1 \<noteq> ascii ''unmount'')"
    by (simp add: argv_eject_def ascii_def)
  show ?thesis
    using main_usage_error [OF s, of machine_os machine_rt "start file_machine"]
      main_usage_error [OF e, of machine_os machine_rt "start file_machine"]
    by (simp add: argv_short_def argv_eject_def)
qed

text \<open>
  C8: in every run of \<open>main\<close>, \<open>mount_iso\<close> or \<open>unmount_iso\<close>, each \<open>os.rmdir\<close> is called in a
  world where the mount point exists and \<open>os.listdir\<close> has just found it empty: after a
  failed mount, after an unmount, and when a directory that is not mounted is cleaned up.
\<close>

theorem rmdir_only_when_empty:
  "removes_only_empty sys (calls (snd (main sys rt argv (start w))))
   \<and> removes_only_empty sys (calls (snd (mount_iso sys rt path (start w))))
   \<and> removes_only_empty sys (calls (snd (unmount_iso sys rt path (start w))))"
proof -
  have "removes_only_empty sys (calls (start w))"
    by (simp add: removes_only_empty_def start_def)
  then show ?thesis
    by (simp add: main_removes_only_empty mount_iso_removes_only_empty
        unmount_iso_removes_only_empty)
qed

theorem rmdir_only_when_empty_witness:
  "map snd (calls (snd (mount_iso machine_os machine_rt iso_image (start dir_machine))))
     = [Makedirs (ascii ''/home/user/.iso_mounts''), Makedirs image_mount_point,
        Run_mount iso_image image_mount_point, Rmdir image_mount_point]
   \<and> removes_only_empty machine_os
       (calls (snd (mount_iso machine_os machine_rt iso_image (start dir_machine))))"
  using rmdir_only_when_empty [of machine_os machine_rt argv_short dir_machine iso_image]
  by (simp add: machine_run dir_machine_def)

end
